theory Spec2Isabelle
  imports Complex_Main "HOL-Library.Log_Nat"
begin

section \<open>Python values used by \<^verbatim>\<open>main.py\<close>\<close>

subsection \<open>Strings\<close>

text \<open>
  A Python \<^verbatim>\<open>str\<close> is a sequence of Unicode code points. Two of the keywords of the
  program are Chinese, so code points are natural numbers here, not bytes.
  \<open>ascii\<close> turns an ASCII literal into such a string.
\<close>

type_synonym ustr = "nat list"

definition ascii :: "string \<Rightarrow> ustr" where
  "ascii s = map of_char s"

text \<open>
  \<^verbatim>\<open>k in s\<close> on strings: \<open>k\<close> occurs in \<open>s\<close> as a contiguous block.
\<close>

fun str_contains :: "ustr \<Rightarrow> ustr \<Rightarrow> bool" where
  "str_contains k [] = (k = [])"
| "str_contains k (c # cs) = (take (length k) (c # cs) = k \<or> str_contains k cs)"

text \<open>
  \<^verbatim>\<open>s.rfind(c)\<close> for a single character: the index of the last occurrence, \<open>None\<close> for
  Python's \<open>-1\<close>.
\<close>

fun rfind :: "nat \<Rightarrow> ustr \<Rightarrow> nat option" where
  "rfind c [] = None"
| "rfind c (x # xs) =
     (case rfind c xs of
        Some i \<Rightarrow> Some (Suc i)
      | None \<Rightarrow> if x = c then Some 0 else None)"

text \<open>
  \<^verbatim>\<open>str.lower\<close> on the ASCII range. The full Unicode mapping belongs to the Python
  runtime; the classifier takes it as a parameter (field \<open>str_lower\<close> of the platform
  below), and \<open>ascii_lower\<close> is the instance used on ASCII names.
\<close>

definition ascii_lower_char :: "nat \<Rightarrow> nat" where
  "ascii_lower_char c = (if 65 \<le> c \<and> c \<le> 90 then c + 32 else c)"

definition ascii_lower :: "ustr \<Rightarrow> ustr" where
  "ascii_lower s = map ascii_lower_char s"

subsection \<open>Paths\<close>

text \<open>
  A \<^verbatim>\<open>pathlib.Path\<close> is its list of parts; an absolute path starts with the part
  \<open>/\<close>. \<open>name\<close> and \<open>suffix\<close> follow \<^verbatim>\<open>PurePath.name\<close> and \<^verbatim>\<open>PurePath.suffix\<close>:
  the suffix is the part of the name from its last dot on, provided that dot is
  neither the first nor the last character of the name.
\<close>

type_synonym path = "ustr list"

definition name :: "path \<Rightarrow> ustr" where
  "name p = (if p = [] \<or> p = [ascii ''/''] then [] else last p)"

definition suffix :: "path \<Rightarrow> ustr" where
  "suffix p =
     (let n = name p in
      case rfind 46 n of
        None \<Rightarrow> []
      | Some i \<Rightarrow> if 0 < i \<and> i + 1 < length n then drop i n else [])"


definition parent :: "path \<Rightarrow> path" where
  "parent p = (if p = [] \<or> p = [ascii ''/''] then p else butlast p)"

subsection \<open>Exceptions\<close>

text \<open>
  The exceptions that matter to the program, all of them subclasses of
  \<^verbatim>\<open>Exception\<close>. \<open>OSError\<close> stands for \<^verbatim>\<open>OSError\<close> and its subclasses other than
  \<^verbatim>\<open>UnidentifiedImageError\<close>; \<open>OtherException\<close> stands for every other subclass of
  \<^verbatim>\<open>Exception\<close>, told apart by its class name.
\<close>

datatype py_exception =
    UnidentifiedImageError
  | OSError
  | ZeroDivisionError
  | OverflowError
  | ValueError
  | OtherException string

subsection \<open>Floats\<close>

text \<open>
  A finite Python \<^verbatim>\<open>float\<close> is an IEEE 754 binary64 number; it is represented by
  the rational it denotes, so comparison of floats is comparison of rationals.
  \<open>round_binary64\<close> rounds a non-negative rational to the nearest binary64 value,
  ties to even: the significand has 53 bits, the exponent of a normal number is
  at least \<open>-1022\<close>, and below that the spacing stays that of the subnormals.
  Float literals and the true division of integers are both correctly rounded.
\<close>

type_synonym pyfloat = rat

definition round_half_even :: "rat \<Rightarrow> int" where
  "round_half_even x =
     (let f = \<lfloor>x\<rfloor>; r = x - of_int f in
      if r < 1 / 2 then f
      else if 1 / 2 < r then f + 1
      else if even f then f else f + 1)"

definition ilog2 :: "rat \<Rightarrow> int" where
  "ilog2 x = (if 1 \<le> x then bitlen \<lfloor>x\<rfloor> - 1 else - bitlen (\<lceil>1 / x\<rceil> - 1))"

definition round_binary64 :: "rat \<Rightarrow> pyfloat" where
  "round_binary64 x =
     (if x \<le> 0 then 0
      else let e = max (ilog2 x) (- 1022)
           in of_int (round_half_even (x * 2 powi (52 - e))) * 2 powi (e - 52))"

definition float_literal :: "rat \<Rightarrow> pyfloat" where
  "float_literal d = round_binary64 d"

text \<open>
  \<^verbatim>\<open>a / b\<close> on non-negative integers: \<^verbatim>\<open>ZeroDivisionError\<close> for a zero divisor,
  \<^verbatim>\<open>OverflowError\<close> when the rounded quotient is beyond the largest float.
\<close>

definition py_truediv :: "nat \<Rightarrow> nat \<Rightarrow> py_exception + pyfloat" where
  "py_truediv a b =
     (if b = 0 then Inl ZeroDivisionError
      else let q = round_binary64 (of_nat a / of_nat b)
           in if 2 ^ 1024 \<le> q then Inl OverflowError else Inr q)"

subsection \<open>Images\<close>

text \<open>
  What the program reads from an opened \<^verbatim>\<open>PIL.Image\<close>: the result of
  \<^verbatim>\<open>img._getexif()\<close>, which raises, or returns \<^verbatim>\<open>None\<close> or a dictionary from tag
  numbers to values (an association list here), and \<^verbatim>\<open>img.size\<close>, a pair of
  non-negative integers.
\<close>

datatype exif_value = ExifInt int | ExifRational int int | ExifText ustr

type_synonym exif_dict = "(nat \<times> exif_value) list"

record image =
  image_getexif :: "py_exception + exif_dict option"
  image_size :: "nat \<times> nat"

section \<open>The platform\<close>

text \<open>
  The program talks to the Python runtime, PIL, \<^verbatim>\<open>pathlib\<close> and \<^verbatim>\<open>shutil\<close>. Their
  behaviour is a parameter: a record of the operations the program calls, over an
  abstract state \<open>'w\<close> of the file system. A query returns its answer or the
  exception it raises; an operation that writes returns the new state and the
  exception it raised, if any. \<open>path_mkdir\<close> takes the flags \<^verbatim>\<open>parents\<close> and
  \<^verbatim>\<open>exist_ok\<close>; \<open>Path\<close> parses a string into a path, which depends on the flavour
  of the operating system.
\<close>

record 'w platform =
  str_lower :: "ustr \<Rightarrow> ustr"
  Path :: "ustr \<Rightarrow> path"
  image_open :: "'w \<Rightarrow> path \<Rightarrow> py_exception + image"
  path_exists :: "'w \<Rightarrow> path \<Rightarrow> py_exception + bool"
  path_is_file :: "'w \<Rightarrow> path \<Rightarrow> py_exception + bool"
  path_rglob :: "'w \<Rightarrow> path \<Rightarrow> py_exception + path list"
  path_mkdir :: "'w \<Rightarrow> path \<Rightarrow> bool \<Rightarrow> bool \<Rightarrow> 'w \<times> py_exception option"
  shutil_copy2 :: "'w \<Rightarrow> path \<Rightarrow> path \<Rightarrow> 'w \<times> py_exception option"
  shutil_move :: "'w \<Rightarrow> path \<Rightarrow> path \<Rightarrow> 'w \<times> py_exception option"

section \<open>The classifier\<close>

definition IMAGE_EXTENSIONS :: "ustr set" where
  "IMAGE_EXTENSIONS =
     {ascii ''.png'', ascii ''.jpg'', ascii ''.jpeg'', ascii ''.heic'', ascii ''.webp''}"

definition SCREENSHOT_KEYWORDS :: "ustr list" where
  "SCREENSHOT_KEYWORDS =
     [ascii ''screenshot'',
      [0x622A, 0x5C4F],
      [0x5C4F, 0x5E55, 0x622A, 0x56FE],
      ascii ''screen_shot'',
      ascii ''captures'']"

definition SCREENSHOT_RATIO_RANGES :: "(pyfloat \<times> pyfloat) list" where
  "SCREENSHOT_RATIO_RANGES =
     [(float_literal (130 / 100), float_literal (136 / 100)),
      (float_literal (175 / 100), float_literal (180 / 100)),
      (float_literal (195 / 100), float_literal (240 / 100))]"

definition photo_tags :: "nat list" where
  "photo_tags = [33434, 33437, 34855]"

text \<open>The loop over the keywords: true at the first keyword found in the name.\<close>

fun keyword_match :: "ustr list \<Rightarrow> ustr \<Rightarrow> bool" where
  "keyword_match [] filename = False"
| "keyword_match (keyword # rest) filename =
     (if str_contains keyword filename then True else keyword_match rest filename)"

text \<open>
  The loop over the photo tags: true at the first tag that is a key of the
  dictionary. The source iterates over a set; the result does not depend on the
  order.
\<close>

fun has_photo_tag :: "nat list \<Rightarrow> exif_dict \<Rightarrow> bool" where
  "has_photo_tag [] exif = False"
| "has_photo_tag (tag # rest) exif =
     (if tag \<in> fst ` set exif then True else has_photo_tag rest exif)"

text \<open>The loop over the ratio ranges: true at the first range that holds the ratio.\<close>

fun ratio_match :: "(pyfloat \<times> pyfloat) list \<Rightarrow> pyfloat \<Rightarrow> bool" where
  "ratio_match [] ratio = False"
| "ratio_match ((min_r, max_r) # rest) ratio =
     (if min_r \<le> ratio \<and> ratio \<le> max_r then True else ratio_match rest ratio)"

text \<open>
  The body of the \<^verbatim>\<open>with\<close> block, on the opened image. It raises (\<open>Inl\<close>), returns a
  verdict (\<open>Inr (Some b)\<close>), or runs to its end without returning (\<open>Inr None\<close>).
\<close>

definition inspect_image :: "image \<Rightarrow> py_exception + bool option" where
  "inspect_image img =
     (case image_getexif img of
        Inl e \<Rightarrow> Inl e
      | Inr exif \<Rightarrow>
          if exif \<noteq> None \<and> exif \<noteq> Some [] \<and> has_photo_tag photo_tags (the exif)
          then Inr (Some False)
          else
            let (w, h) = image_size img in
            if w = 0 \<or> h = 0 then Inr (Some False)
            else
              let long_side = max w h; short_side = min w h in
              (case py_truediv long_side short_side of
                 Inl e \<Rightarrow> Inl e
               | Inr ratio \<Rightarrow>
                   if ratio_match SCREENSHOT_RATIO_RANGES ratio then Inr (Some True)
                   else Inr None))"

text \<open>
  The block guarded by \<^verbatim>\<open>try\<close>: \<^verbatim>\<open>Image.open\<close>, then the body on the opened image.
\<close>

definition try_block :: "'w platform \<Rightarrow> 'w \<Rightarrow> path \<Rightarrow> py_exception + bool option" where
  "try_block pf w file_path =
     (case image_open pf w file_path of
        Inl e \<Rightarrow> Inl e
      | Inr img \<Rightarrow> inspect_image img)"

text \<open>
  The \<^verbatim>\<open>try\<close> statement with its handlers. The first handler takes
  \<^verbatim>\<open>UnidentifiedImageError\<close> and \<^verbatim>\<open>OSError\<close>, the second every other
  \<^verbatim>\<open>Exception\<close>; both return \<^verbatim>\<open>False\<close>, and so does the statement after the \<^verbatim>\<open>try\<close>.
\<close>

definition content_check :: "'w platform \<Rightarrow> 'w \<Rightarrow> path \<Rightarrow> bool" where
  "content_check pf w file_path =
     (case try_block pf w file_path of
        Inl e \<Rightarrow> if e = UnidentifiedImageError \<or> e = OSError then False else False
      | Inr (Some verdict) \<Rightarrow> verdict
      | Inr None \<Rightarrow> False)"

text \<open>
  \<open>is_screenshot\<close> returns the verdict together with the files it has called
  \<^verbatim>\<open>Image.open\<close> on: none, or the path itself.
\<close>

definition is_screenshot :: "'w platform \<Rightarrow> 'w \<Rightarrow> path \<Rightarrow> bool \<times> path list" where
  "is_screenshot pf w file_path =
     (if str_lower pf (suffix file_path) \<notin> IMAGE_EXTENSIONS then (False, [])
      else
        let filename = str_lower pf (name file_path) in
        if keyword_match SCREENSHOT_KEYWORDS filename then (True, [])
        else (content_check pf w file_path, [file_path]))"

section \<open>The command\<close>
















section \<open>A small file system\<close>

text \<open>
  One instance of the platform, on which the program can be run: the file system
  is a table from paths to nodes, a file holding what \<^verbatim>\<open>Image.open\<close> makes of its
  content. Strings are lower-cased on the ASCII range and paths are parsed the
  POSIX way. \<^verbatim>\<open>mkdir\<close> with \<^verbatim>\<open>parents\<close> creates the missing ancestors; \<^verbatim>\<open>copy2\<close> and
  \<^verbatim>\<open>move\<close> need a source that is a file and a target whose parent is a directory.
\<close>

datatype node = Directory | File "py_exception + image"

type_synonym fs = "(path \<times> node) list"

fun split_slash :: "ustr \<Rightarrow> ustr list" where
  "split_slash [] = [[]]"
| "split_slash (c # cs) =
     (if c = 47 then [] # split_slash cs
      else case split_slash cs of
             [] \<Rightarrow> [[c]]
           | x # xs \<Rightarrow> (c # x) # xs)"

definition posix_Path :: "ustr \<Rightarrow> path" where
  "posix_Path s =
     (if take 1 s = [47] then [ascii ''/''] else [])
     @ filter (\<lambda>c. c \<noteq> [] \<and> c \<noteq> [46]) (split_slash s)"

definition is_file_node :: "node option \<Rightarrow> bool" where
  "is_file_node n = (case n of Some (File r) \<Rightarrow> True | _ \<Rightarrow> False)"

definition fs_open :: "fs \<Rightarrow> path \<Rightarrow> py_exception + image" where
  "fs_open w p = (case map_of w p of Some (File r) \<Rightarrow> r | _ \<Rightarrow> Inl OSError)"

definition fs_exists :: "fs \<Rightarrow> path \<Rightarrow> py_exception + bool" where
  "fs_exists w p = Inr (map_of w p \<noteq> None)"

definition fs_is_file :: "fs \<Rightarrow> path \<Rightarrow> py_exception + bool" where
  "fs_is_file w p = Inr (is_file_node (map_of w p))"

definition fs_rglob :: "fs \<Rightarrow> path \<Rightarrow> py_exception + path list" where
  "fs_rglob w root_dir =
     Inr (filter (\<lambda>q. length root_dir < length q \<and> take (length root_dir) q = root_dir)
            (map fst w))"

definition fs_store :: "fs \<Rightarrow> path \<Rightarrow> node \<Rightarrow> fs" where
  "fs_store w p n = filter (\<lambda>(q, m). q \<noteq> p) w @ [(p, n)]"

definition ancestors :: "path \<Rightarrow> path list" where
  "ancestors p = map (\<lambda>n. take n p) [1 ..< Suc (length p)]"

definition fs_mkdir :: "fs \<Rightarrow> path \<Rightarrow> bool \<Rightarrow> bool \<Rightarrow> fs \<times> py_exception option" where
  "fs_mkdir w p parents exist_ok =
     (if list_ex (\<lambda>q. is_file_node (map_of w q)) (ancestors p) then (w, Some OSError)
      else if map_of w p \<noteq> None \<and> \<not> exist_ok then (w, Some OSError)
      else if \<not> parents \<and> list_ex (\<lambda>q. map_of w q = None) (butlast (ancestors p))
        then (w, Some OSError)
      else (w @ map (\<lambda>q. (q, Directory)) (filter (\<lambda>q. map_of w q = None) (ancestors p)),
            None))"

definition fs_copy2 :: "fs \<Rightarrow> path \<Rightarrow> path \<Rightarrow> fs \<times> py_exception option" where
  "fs_copy2 w src dst =
     (case map_of w src of
        Some (File r) \<Rightarrow>
          if map_of w (parent dst) = Some Directory then (fs_store w dst (File r), None)
          else (w, Some OSError)
      | _ \<Rightarrow> (w, Some OSError))"

definition fs_move :: "fs \<Rightarrow> path \<Rightarrow> path \<Rightarrow> fs \<times> py_exception option" where
  "fs_move w src dst =
     (case map_of w src of
        Some (File r) \<Rightarrow>
          if map_of w (parent dst) = Some Directory
          then (filter (\<lambda>(q, m). q \<noteq> src) (fs_store w dst (File r)), None)
          else (w, Some OSError)
      | _ \<Rightarrow> (w, Some OSError))"

definition small_fs :: "fs platform" where
  "small_fs =
     \<lparr>str_lower = ascii_lower, Path = posix_Path, image_open = fs_open,
      path_exists = fs_exists, path_is_file = fs_is_file, path_rglob = fs_rglob,
      path_mkdir = fs_mkdir, shutil_copy2 = fs_copy2, shutil_move = fs_move\<rparr>"

section \<open>Sample files\<close>

text \<open>
  A directory \<open>pics\<close> on the small file system: a square image with a screenshot
  name, a tall image and a square one with neutral names, a text file with the
  extension of an image, a camera photo with the \<^verbatim>\<open>FNumber\<close> tag, an image of width
  zero, a tall image in GIF format under the name \<^verbatim>\<open>anim.png\<close>, which PIL opens by its
  content into a class without \<^verbatim>\<open>_getexif\<close>, so that the EXIF read raises
  \<^verbatim>\<open>AttributeError\<close>, and a text file with a screenshot name. A second file system has a
  directory \<open>shots\<close> with two files named as screenshots, one of them in Chinese
  and with the EXIF of a photo, and a camera photo; a directory \<open>docs\<close> without
  images; a directory \<open>backup\<close> that already holds a file named as the first
  screenshot.
\<close>

definition square_image :: image where
  "square_image = \<lparr>image_getexif = Inr None, image_size = (1024, 1024)\<rparr>"

definition tall_image :: image where
  "tall_image = \<lparr>image_getexif = Inr None, image_size = (472, 1024)\<rparr>"

definition camera_photo :: image where
  "camera_photo =
     \<lparr>image_getexif = Inr (Some [(33437, ExifRational 18 10)]), image_size = (1080, 1920)\<rparr>"

definition blank_image :: image where
  "blank_image = \<lparr>image_getexif = Inr None, image_size = (0, 600)\<rparr>"

definition gif_image :: image where
  "gif_image =
     \<lparr>image_getexif = Inl (OtherException ''AttributeError''), image_size = (472, 1024)\<rparr>"

definition sample_fs :: fs where
  "sample_fs =
     [([ascii ''pics''], Directory),
      ([ascii ''pics'', ascii ''Screenshot_2026.png''], File (Inr square_image)),
      ([ascii ''pics'', ascii ''img_random_001.png''], File (Inr tall_image)),
      ([ascii ''pics'', ascii ''img_random_002.png''], File (Inr square_image)),
      ([ascii ''pics'', ascii ''notes.png''], File (Inl UnidentifiedImageError)),
      ([ascii ''pics'', ascii ''photo.jpg''], File (Inr camera_photo)),
      ([ascii ''pics'', ascii ''blank.webp''], File (Inr blank_image)),
      ([ascii ''pics'', ascii ''anim.png''], File (Inr gif_image)),
      ([ascii ''pics'', ascii ''screenshot.txt''], File (Inl UnidentifiedImageError))]"







text \<open>The three ranges of the specification, on the exact ratio.\<close>

definition in_ranges :: "rat \<Rightarrow> bool" where
  "in_ranges r \<longleftrightarrow>
     130 / 100 \<le> r \<and> r \<le> 136 / 100
     \<or> 175 / 100 \<le> r \<and> r \<le> 180 / 100
     \<or> 195 / 100 \<le> r \<and> r \<le> 240 / 100"

section \<open>Rounding to binary64\<close>

text \<open>
  Rounding moves a number of the interval from 1 to 4 by at most \<open>1 / 2 ^ 52\<close>, and never
  moves a number from 4 on below 4.
\<close>

lemma rhe_err: "\<bar>of_int (round_half_even x) - x\<bar> \<le> 1 / 2"
proof -
  have "of_int \<lfloor>x\<rfloor> \<le> x" "x < of_int \<lfloor>x\<rfloor> + 1" by linarith+
  then show ?thesis
    unfolding round_half_even_def Let_def by (simp add: abs_le_iff)
qed

lemma rhe_ge_floor: "\<lfloor>x\<rfloor> \<le> round_half_even x"
  unfolding round_half_even_def Let_def by simp

lemma bitlen_1: "bitlen 1 = 1"
  by code_simp

lemma bitlen_2: "bitlen 2 = 2"
  by code_simp

lemma bitlen_3: "bitlen 3 = 2"
  by code_simp

lemma ilog2_12: "1 \<le> x \<Longrightarrow> x < 2 \<Longrightarrow> ilog2 x = 0"
proof -
  assume a: "1 \<le> x" "x < 2"
  then have "\<lfloor>x\<rfloor> = 1" by linarith
  then show ?thesis using a by (simp add: ilog2_def bitlen_1)
qed

lemma ilog2_24: "2 \<le> x \<Longrightarrow> x < 4 \<Longrightarrow> ilog2 x = 1"
proof -
  assume a: "2 \<le> x" "x < 4"
  then have "\<lfloor>x\<rfloor> = 2 \<or> \<lfloor>x\<rfloor> = 3" by linarith
  then show ?thesis using a by (auto simp add: ilog2_def bitlen_2 bitlen_3)
qed

lemma ilog2_nonneg: assumes "1 \<le> x" shows "0 \<le> ilog2 x"
proof -
  have "1 \<le> \<lfloor>x\<rfloor>" using assms by linarith
  then have "1 \<le> bitlen \<lfloor>x\<rfloor>" by (simp add: bitlen_ge_iff_power)
  then show ?thesis using assms by (simp add: ilog2_def)
qed

lemma rb_unfold: assumes "1 \<le> x"
  shows "round_binary64 x = of_int (round_half_even (x * 2 powi (52 - ilog2 x))) * 2 powi (ilog2 x - 52)"
proof -
  have "max (ilog2 x) (- 1022) = ilog2 x" using ilog2_nonneg [OF assms] by simp
  moreover have "\<not> x \<le> 0" using assms by simp
  ultimately show ?thesis unfolding round_binary64_def Let_def by simp
qed

lemma rb_err_gen: assumes "1 \<le> x"
  shows "\<bar>round_binary64 x - x\<bar> \<le> 2 powi (ilog2 x - 53)"
proof -
  define e where "e = ilog2 x"
  define c :: rat where "c = 2 powi (52 - e)"
  define c' :: rat where "c' = 2 powi (e - 52)"
  have cc: "c * c' = 1" unfolding c_def c'_def by (simp add: power_int_add [symmetric])
  have c'pos: "0 < c'" unfolding c'_def by simp
  have half: "c' / 2 = 2 powi (e - 53)"
  proof -
    have "(2::rat) powi (e - 53) * 2 powi 1 = 2 powi (e - 53 + 1)"
      by (subst power_int_add) simp_all
    then show ?thesis unfolding c'_def by simp
  qed
  have rb: "round_binary64 x = of_int (round_half_even (x * c)) * c'"
    unfolding c_def c'_def e_def by (rule rb_unfold [OF assms])
  have "\<bar>of_int (round_half_even (x * c)) - x * c\<bar> \<le> 1 / 2" by (rule rhe_err)
  then have "\<bar>of_int (round_half_even (x * c)) - x * c\<bar> * c' \<le> 1 / 2 * c'"
    using c'pos by (intro mult_right_mono) simp_all
  moreover have "\<bar>of_int (round_half_even (x * c)) - x * c\<bar> * c' = \<bar>of_int (round_half_even (x * c)) * c' - x * (c * c')\<bar>"
  proof -
    have "of_int (round_half_even (x * c)) * c' - x * (c * c') = (of_int (round_half_even (x * c)) - x * c) * c'"
      by (simp add: algebra_simps)
    then show ?thesis using c'pos by (simp add: abs_mult)
  qed
  ultimately have "\<bar>of_int (round_half_even (x * c)) * c' - x\<bar> \<le> c' / 2"
    unfolding cc by simp
  then show ?thesis unfolding rb half e_def .
qed

lemma rb_err: assumes "1 \<le> x" "x < 4" shows "\<bar>round_binary64 x - x\<bar> \<le> 1 / 2 ^ 52"
proof -
  have "ilog2 x \<le> 1" using ilog2_12 [of x] ilog2_24 [of x] assms by (cases "x < 2") simp_all
  then have "(2::rat) powi (ilog2 x - 53) \<le> 2 powi (- 52)"
    by (intro power_int_increasing) simp_all
  also have "\<dots> = 1 / 2 ^ 52" by (simp add: power_int_minus_divide)
  finally show ?thesis using rb_err_gen [OF assms(1)] by linarith
qed

lemma rb_ge4: assumes "4 \<le> x" shows "4 \<le> round_binary64 x"
proof -
  define n where "n = \<lfloor>x\<rfloor>"
  define e where "e = ilog2 x"
  define y where "y = x * 2 powi (52 - e)"
  have x1: "1 \<le> x" using assms by simp
  have n4: "4 \<le> n" using assms unfolding n_def by linarith
  have e_eq: "e = bitlen n - 1" using x1 by (simp add: e_def ilog2_def n_def)
  have "3 \<le> bitlen n" using n4 by (simp add: bitlen_ge_iff_power)
  then have e2: "2 \<le> e" using e_eq by simp
  have "2 ^ nat e \<le> n" using bitlen_bounds [of n] n4 unfolding e_eq by simp
  then have "of_int (2 ^ nat e) \<le> (of_int n :: rat)" by (simp only: of_int_le_iff)
  then have "(2::rat) ^ nat e \<le> of_int n" by simp
  also have "\<dots> \<le> x" unfolding n_def by simp
  finally have pe: "(2::rat) powi e \<le> x" using e2 by (simp add: power_int_def)
  have "(2::rat) powi e * 2 powi (52 - e) = 2 powi (e + (52 - e))"
    by (subst power_int_add) simp_all
  then have "(2::rat) powi 52 = 2 powi e * 2 powi (52 - e)" by simp
  also have "\<dots> \<le> y" unfolding y_def
    using pe by (intro mult_right_mono) simp_all
  finally have "of_int (2 ^ 52) \<le> y" by simp
  then have "(2::int) ^ 52 \<le> \<lfloor>y\<rfloor>" by (simp only: le_floor_iff)
  then have "(2::int) ^ 52 \<le> round_half_even y"
    using rhe_ge_floor [of y] by linarith
  then have "of_int (2 ^ 52) \<le> (of_int (round_half_even y) :: rat)" by (simp only: of_int_le_iff)
  then have "(2::rat) powi 52 \<le> of_int (round_half_even y)" by simp
  then have A: "(2::rat) powi 52 * 2 powi (e - 52) \<le> of_int (round_half_even y) * 2 powi (e - 52)"
    by (intro mult_right_mono) simp_all
  have "(2::rat) powi 52 * 2 powi (e - 52) = 2 powi (52 + (e - 52))"
    by (subst power_int_add) simp_all
  also have "\<dots> = 2 powi e" by simp
  finally have B: "(2::rat) powi 52 * 2 powi (e - 52) = 2 powi e" .
  have "(2::rat) powi e \<le> of_int (round_half_even y) * 2 powi (e - 52)"
    using A unfolding B .
  moreover have "(4::rat) \<le> 2 powi e"
  proof -
    have "(2::rat) powi 2 \<le> 2 powi e" using e2 by (intro power_int_increasing) simp_all
    then show ?thesis by simp
  qed
  moreover have "round_binary64 x = of_int (round_half_even y) * 2 powi (e - 52)"
    unfolding y_def e_def by (rule rb_unfold [OF x1])
  ultimately show ?thesis by linarith
qed

text \<open>The literal \<^verbatim>\<open>1.30\<close> is the float that Python prints for it in full.\<close>

lemma float_literal_130: "float_literal (130 / 100) = 5854679515581645 / 4503599627370496"
proof -
  have e: "ilog2 (130 / 100) = 0" by (rule ilog2_12) simp_all
  have f: "\<lfloor>(5854679515581644 + 4 / 5 :: rat)\<rfloor> = 5854679515581644" by linarith
  have "(130 / 100 :: rat) * 2 ^ 52 = 5854679515581644 + 4 / 5" by simp
  then have "round_half_even (130 / 100 * 2 ^ 52) = 5854679515581645"
    unfolding round_half_even_def Let_def by (simp only: f) simp
  then show ?thesis
    unfolding float_literal_def round_binary64_def Let_def e by (simp add: power_int_minus_divide)
qed

text \<open>
  A quotient of natural numbers that differs from a decimal with two places differs
  from it by at least one hundredth of the inverse of its denominator.
\<close>

lemma gap: fixes a b n :: nat
  assumes b: "0 < b" and lt: "(of_nat a :: rat) / of_nat b < of_nat n / 100"
  shows "(of_nat a :: rat) / of_nat b + 1 / (100 * of_nat b) \<le> of_nat n / 100"
proof -
  have "100 * a < n * b"
  proof -
    have "(of_nat a :: rat) * 100 < of_nat n * of_nat b"
      using lt b by (simp add: field_simps)
    then have "(of_nat (a * 100) :: rat) < of_nat (n * b)" by simp
    then show ?thesis by (simp only: of_nat_less_iff mult.commute)
  qed
  then have "100 * a + 1 \<le> n * b" by simp
  then have "(of_nat (100 * a + 1) :: rat) \<le> of_nat (n * b)" by (simp only: of_nat_le_iff)
  then have "100 * (of_nat a :: rat) + 1 \<le> of_nat n * of_nat b" by simp
  then show ?thesis using b by (simp add: field_simps)
qed

lemma gap': fixes a b n :: nat
  assumes b: "0 < b" and lt: "(of_nat n :: rat) / 100 < of_nat a / of_nat b"
  shows "(of_nat n :: rat) / 100 + 1 / (100 * of_nat b) \<le> of_nat a / of_nat b"
proof -
  have "n * b < 100 * a"
  proof -
    have "of_nat n * of_nat b < (of_nat a :: rat) * 100"
      using lt b by (simp add: field_simps)
    then have "(of_nat (n * b) :: rat) < of_nat (a * 100)" by simp
    then show ?thesis by (simp only: of_nat_less_iff mult.commute)
  qed
  then have "n * b + 1 \<le> 100 * a" by simp
  then have "(of_nat (n * b + 1) :: rat) \<le> of_nat (100 * a)" by (simp only: of_nat_le_iff)
  then have "of_nat n * of_nat b + 1 \<le> 100 * (of_nat a :: rat)" by simp
  then have "(of_nat n * of_nat b + 1) / (100 * of_nat b) \<le> 100 * (of_nat a :: rat) / (100 * of_nat b)"
    by (intro divide_right_mono) simp_all
  moreover have "(of_nat n * of_nat b + 1) / (100 * of_nat b) = (of_nat n :: rat) / 100 + 1 / (100 * of_nat b)"
    using b by (simp add: add_divide_distrib)
  moreover have "100 * (of_nat a :: rat) / (100 * of_nat b) = of_nat a / of_nat b" by simp
  ultimately show ?thesis by simp
qed

text \<open>
  So comparing the rounded quotient with the rounded decimal is comparing the quotient
  with the decimal, as long as the denominator is below \<open>2 ^ 44\<close>.
\<close>

lemma tol_gap: fixes b :: nat assumes "0 < b" "b < 2 ^ 44"
  shows "2 / 2 ^ 52 < (1::rat) / (100 * of_nat b)"
proof -
  have "(of_nat b :: rat) < of_nat (2 ^ 44)" using assms(2) by (simp only: of_nat_less_iff)
  then have "100 * (of_nat b :: rat) < 2 ^ 51" by simp
  moreover have "0 < 100 * (of_nat b :: rat)" using assms(1) by simp
  ultimately have "(1::rat) / 2 ^ 51 < 1 / (100 * of_nat b)"
    by (intro frac_less2) simp_all
  then show ?thesis by simp
qed

lemma cmp_lower: fixes a b n :: nat
  assumes b: "0 < b" "b < 2 ^ 44" and n: "100 \<le> n" "n < 400" and ab: "b \<le> a"
  shows "round_binary64 (of_nat n / 100) \<le> round_binary64 (of_nat a / of_nat b)
         \<longleftrightarrow> (of_nat n :: rat) / 100 \<le> of_nat a / of_nat b"
proof -
  define q :: rat where "q = of_nat a / of_nat b"
  define d :: rat where "d = of_nat n / 100"
  have q1: "1 \<le> q" unfolding q_def using b ab by simp
  have d1: "1 \<le> d" unfolding d_def using n by simp
  have d4: "d \<le> 399 / 100"
  proof -
    have "n \<le> 399" using n by simp
    then have "(of_nat n :: rat) \<le> of_nat 399" by (simp only: of_nat_le_iff)
    then show ?thesis unfolding d_def by simp
  qed
  define t :: rat where "t = 1 / 2 ^ 52"
  define g :: rat where "g = 1 / (100 * of_nat b)"
  have "\<bar>round_binary64 d - d\<bar> \<le> t" unfolding t_def using d1 d4 by (intro rb_err) simp_all
  then have ed: "d - t \<le> round_binary64 d" "round_binary64 d \<le> d + t"
    by (simp_all only: abs_diff_le_iff)
  have tg: "2 * t < g" unfolding t_def g_def using tol_gap [OF b] by simp
  have ts: "t \<le> 1 / 1000" unfolding t_def by simp
  show ?thesis unfolding q_def [symmetric] d_def [symmetric]
  proof (cases "q < 4")
    case False
    then have "4 \<le> round_binary64 q" by (intro rb_ge4) simp
    moreover have "round_binary64 d < 4" using ed d4 ts by linarith
    ultimately show "round_binary64 d \<le> round_binary64 q \<longleftrightarrow> d \<le> q" using False d4 by simp
  next
    case True
    have "\<bar>round_binary64 q - q\<bar> \<le> t" unfolding t_def using q1 True by (rule rb_err)
    then have eq: "q - t \<le> round_binary64 q" "round_binary64 q \<le> q + t"
      by (simp_all only: abs_diff_le_iff)
    consider "q = d" | "q < d" | "d < q" by linarith
    then show "round_binary64 d \<le> round_binary64 q \<longleftrightarrow> d \<le> q"
    proof cases
      case 1 then show ?thesis by simp
    next
      case 2
      then have "q + g \<le> d" unfolding q_def d_def g_def using b(1) by (intro gap)
      then have "round_binary64 q < round_binary64 d" using tg ed eq by linarith
      then show ?thesis using 2 by simp
    next
      case 3
      then have "d + g \<le> q" unfolding q_def d_def g_def using b(1) by (intro gap')
      then have "round_binary64 d < round_binary64 q" using tg ed eq by linarith
      then show ?thesis using 3 by simp
    qed
  qed
qed

lemma cmp_upper: fixes a b n :: nat
  assumes b: "0 < b" "b < 2 ^ 44" and n: "100 \<le> n" "n < 400" and ab: "b \<le> a"
  shows "round_binary64 (of_nat a / of_nat b) \<le> round_binary64 (of_nat n / 100)
         \<longleftrightarrow> (of_nat a :: rat) / of_nat b \<le> of_nat n / 100"
proof -
  define q :: rat where "q = of_nat a / of_nat b"
  define d :: rat where "d = of_nat n / 100"
  have q1: "1 \<le> q" unfolding q_def using b ab by simp
  have d1: "1 \<le> d" unfolding d_def using n by simp
  have d4: "d \<le> 399 / 100"
  proof -
    have "n \<le> 399" using n by simp
    then have "(of_nat n :: rat) \<le> of_nat 399" by (simp only: of_nat_le_iff)
    then show ?thesis unfolding d_def by simp
  qed
  define t :: rat where "t = 1 / 2 ^ 52"
  define g :: rat where "g = 1 / (100 * of_nat b)"
  have "\<bar>round_binary64 d - d\<bar> \<le> t" unfolding t_def using d1 d4 by (intro rb_err) simp_all
  then have ed: "d - t \<le> round_binary64 d" "round_binary64 d \<le> d + t"
    by (simp_all only: abs_diff_le_iff)
  have tg: "2 * t < g" unfolding t_def g_def using tol_gap [OF b] by simp
  have ts: "t \<le> 1 / 1000" unfolding t_def by simp
  show ?thesis unfolding q_def [symmetric] d_def [symmetric]
  proof (cases "q < 4")
    case False
    then have "4 \<le> round_binary64 q" by (intro rb_ge4) simp
    moreover have "round_binary64 d < 4" using ed d4 ts by linarith
    ultimately show "round_binary64 q \<le> round_binary64 d \<longleftrightarrow> q \<le> d" using False d4 by simp
  next
    case True
    have "\<bar>round_binary64 q - q\<bar> \<le> t" unfolding t_def using q1 True by (rule rb_err)
    then have eq: "q - t \<le> round_binary64 q" "round_binary64 q \<le> q + t"
      by (simp_all only: abs_diff_le_iff)
    consider "q = d" | "q < d" | "d < q" by linarith
    then show "round_binary64 q \<le> round_binary64 d \<longleftrightarrow> q \<le> d"
    proof cases
      case 1 then show ?thesis by simp
    next
      case 2
      then have "q + g \<le> d" unfolding q_def d_def g_def using b(1) by (intro gap)
      then have "round_binary64 q < round_binary64 d" using tg ed eq by linarith
      then show ?thesis using 2 by simp
    next
      case 3
      then have "d + g \<le> q" unfolding q_def d_def g_def using b(1) by (intro gap')
      then have "round_binary64 d < round_binary64 q" using tg ed eq by linarith
      then show ?thesis using 3 by simp
    qed
  qed
qed

section \<open>The loops of the classifier\<close>

lemma str_contains_iff: "str_contains k s \<longleftrightarrow> (\<exists>pre post. s = pre @ k @ post)"
proof (induction s)
  case Nil
  then show ?case by auto
next
  case (Cons c cs)
  show ?case
  proof
    assume "str_contains k (c # cs)"
    then consider "take (length k) (c # cs) = k" | "str_contains k cs" by auto
    then show "\<exists>pre post. c # cs = pre @ k @ post"
    proof cases
      case 1
      then have "c # cs = [] @ k @ drop (length k) (c # cs)"
        by (metis append_Nil append_take_drop_id)
      then show ?thesis by blast
    next
      case 2
      then obtain pre post where "cs = pre @ k @ post" using Cons.IH by blast
      then have "c # cs = (c # pre) @ k @ post" by simp
      then show ?thesis by blast
    qed
  next
    assume "\<exists>pre post. c # cs = pre @ k @ post"
    then obtain pre post where eq: "c # cs = pre @ k @ post" by blast
    show "str_contains k (c # cs)"
    proof (cases pre)
      case Nil
      then have "take (length k) (c # cs) = k" using eq by simp
      then show ?thesis by simp
    next
      case (Cons a pre')
      then have "cs = pre' @ k @ post" using eq by simp
      then have "str_contains k cs" using Cons.IH by blast
      then show ?thesis by simp
    qed
  qed
qed

lemma keyword_match_iff: "keyword_match ks s \<longleftrightarrow> (\<exists>k \<in> set ks. str_contains k s)"
  by (induction ks) auto

lemma has_photo_tag_iff: "has_photo_tag ts d \<longleftrightarrow> (\<exists>t \<in> set ts. t \<in> fst ` set d)"
  by (induction ts) auto

lemma ratio_match_exact: fixes a b :: nat
  assumes b: "0 < b" "b < 2 ^ 44" and ab: "b \<le> a"
  shows "ratio_match SCREENSHOT_RATIO_RANGES (round_binary64 (of_nat a / of_nat b))
         \<longleftrightarrow> in_ranges (of_nat a / of_nat b)"
proof -
  define q :: rat where "q = of_nat a / of_nat b"
  have n: "100 \<le> (130::nat)" "(130::nat) < 400" "100 \<le> (136::nat)" "(136::nat) < 400"
    "100 \<le> (175::nat)" "(175::nat) < 400" "100 \<le> (180::nat)" "(180::nat) < 400"
    "100 \<le> (195::nat)" "(195::nat) < 400" "100 \<le> (240::nat)" "(240::nat) < 400"
    by simp_all
  note lo = cmp_lower [OF b _ _ ab, unfolded of_nat_numeral, folded q_def]
  note hi = cmp_upper [OF b _ _ ab, unfolded of_nat_numeral, folded q_def]
  have "round_binary64 (130 / 100) \<le> round_binary64 q \<longleftrightarrow> 130 / 100 \<le> q"
    "round_binary64 q \<le> round_binary64 (136 / 100) \<longleftrightarrow> q \<le> 136 / 100"
    "round_binary64 (175 / 100) \<le> round_binary64 q \<longleftrightarrow> 175 / 100 \<le> q"
    "round_binary64 q \<le> round_binary64 (180 / 100) \<longleftrightarrow> q \<le> 180 / 100"
    "round_binary64 (195 / 100) \<le> round_binary64 q \<longleftrightarrow> 195 / 100 \<le> q"
    "round_binary64 q \<le> round_binary64 (240 / 100) \<longleftrightarrow> q \<le> 240 / 100"
    using lo [of 130] hi [of 136] lo [of 175] hi [of 180] lo [of 195] hi [of 240] n
    by (simp_all only: of_nat_numeral)
  then show ?thesis
    unfolding q_def [symmetric] in_ranges_def SCREENSHOT_RATIO_RANGES_def float_literal_def
    by (simp only: ratio_match.simps if_True if_False simp_thms split: if_split) auto
qed

lemma overflow_far: assumes "1 \<le> x" "2 ^ 1024 \<le> round_binary64 x" shows "4 \<le> x"
proof (rule ccontr)
  assume "\<not> 4 \<le> x"
  then have x4: "x < 4" by simp
  have "\<bar>round_binary64 x - x\<bar> \<le> 1 / 2 ^ 52" using assms(1) x4 by (rule rb_err)
  then have "round_binary64 x \<le> x + 1 / 2 ^ 52" by (simp only: abs_diff_le_iff)
  moreover have "(1::rat) / 2 ^ 52 \<le> 1" by simp
  ultimately have "round_binary64 x < 5" using x4 by linarith
  moreover have "(5::rat) < 2 ^ 1024" by simp
  ultimately show False using assms(2) by linarith
qed

lemma inspect_ratio: 
  assumes exif: "image_getexif img = Inr exif"
    and tags: "\<forall>d. exif = Some d \<longrightarrow> \<not> has_photo_tag photo_tags d"
    and size: "image_size img = (wd, ht)" and pos: "0 < wd" "0 < ht"
    and small: "min wd ht < 2 ^ 44"
  shows "inspect_image img \<in> {Inr (Some True), Inl OverflowError, Inr None}
       \<and> (inspect_image img = Inr (Some True) \<longleftrightarrow> in_ranges (of_nat (max wd ht) / of_nat (min wd ht)))"
proof -
  define a where "a = max wd ht"
  define b where "b = min wd ht"
  define q :: rat where "q = of_nat a / of_nat b"
  have b: "0 < b" "b < 2 ^ 44" "b \<le> a" using pos small unfolding a_def b_def by simp_all
  have q1: "1 \<le> q" unfolding q_def using b by simp
  have noex: "(exif \<noteq> None \<and> exif \<noteq> Some [] \<and> has_photo_tag photo_tags (the exif)) = False"
    using tags by (cases exif) auto
  have body: "inspect_image img =
      (case py_truediv a b of Inl e \<Rightarrow> Inl e
       | Inr ratio \<Rightarrow> if ratio_match SCREENSHOT_RATIO_RANGES ratio then Inr (Some True) else Inr None)"
    unfolding inspect_image_def a_def b_def using exif size pos
    by (simp only: noex sum.case if_False Let_def prod.case) simp
  show ?thesis
  proof (cases "2 ^ 1024 \<le> round_binary64 q")
    case True
    then have "4 \<le> q" using q1 by (intro overflow_far)
    then have "\<not> in_ranges q" by (simp add: in_ranges_def)
    moreover have "inspect_image img = Inl OverflowError"
      unfolding body py_truediv_def using b True by (simp add: q_def Let_def)
    ultimately show ?thesis unfolding q_def a_def b_def by simp
  next
    case False
    then have "py_truediv a b = Inr (round_binary64 q)"
      unfolding py_truediv_def using b by (simp add: q_def Let_def)
    then have "inspect_image img = (if in_ranges q then Inr (Some True) else Inr None)"
      unfolding body using ratio_match_exact [OF b] by (simp add: q_def)
    then show ?thesis unfolding q_def a_def b_def by simp
  qed
qed

lemma inspect_zero:
  assumes "image_size img = (wd, ht)" and "wd = 0 \<or> ht = 0"
  shows "inspect_image img = Inr (Some False)
         \<or> (\<exists>e. image_getexif img = Inl e \<and> inspect_image img = Inl e)"
  using assms by (auto simp: inspect_image_def split: sum.splits)

lemma no_division_by_zero:
  "inspect_image img = Inl ZeroDivisionError \<Longrightarrow> image_getexif img = Inl ZeroDivisionError"
  by (auto simp: inspect_image_def py_truediv_def Let_def split: sum.splits if_splits prod.splits)

section \<open>Claims about the classifier\<close>

lemmas sample_defs = small_fs_def sample_fs_def fs_open_def ascii_def ascii_lower_def
  ascii_lower_char_def suffix_def name_def IMAGE_EXTENSIONS_def SCREENSHOT_KEYWORDS_def
  tall_image_def square_image_def camera_photo_def blank_image_def gif_image_def

text \<open>
  C1, as stated: a path whose name contains a keyword is a screenshot. The
  extension is tested first, so this fails for a name with a keyword and another
  extension: \<^verbatim>\<open>pics/screenshot.txt\<close> has the keyword \<^verbatim>\<open>screenshot\<close> in its name and is
  not a screenshot.
\<close>

theorem keyword_needs_extension:
  "ascii ''screenshot'' \<in> set SCREENSHOT_KEYWORDS
   \<and> str_lower small_fs (name [ascii ''pics'', ascii ''screenshot.txt''])
       = [] @ ascii ''screenshot'' @ ascii ''.txt''
   \<and> fst (is_screenshot small_fs sample_fs [ascii ''pics'', ascii ''screenshot.txt'']) = False"
  by (simp add: sample_defs is_screenshot_def)

text \<open>
  C1, amended: for every path whose lower-cased extension is an image extension and
  whose lower-cased name contains a keyword of the list, \<open>is_screenshot\<close> returns
  true and has not called \<^verbatim>\<open>Image.open\<close>, whatever the platform and the file system
  hold: the content of the file, its ratio and its EXIF play no part.
\<close>

theorem keyword_fast_path:
  assumes "str_lower pf (suffix file_path) \<in> IMAGE_EXTENSIONS"
    and "keyword \<in> set SCREENSHOT_KEYWORDS"
    and "str_lower pf (name file_path) = pre @ keyword @ post"
  shows "is_screenshot pf w file_path = (True, [])"
proof -
  have "str_contains keyword (str_lower pf (name file_path))"
    using assms(3) str_contains_iff by blast
  then have "keyword_match SCREENSHOT_KEYWORDS (str_lower pf (name file_path))"
    using assms(2) keyword_match_iff by blast
  then show ?thesis using assms(1) by (simp add: is_screenshot_def)
qed

theorem keyword_fast_path_witness:
  "str_lower small_fs (suffix [ascii ''pics'', ascii ''Screenshot_2026.png'']) \<in> IMAGE_EXTENSIONS
   \<and> ascii ''screenshot'' \<in> set SCREENSHOT_KEYWORDS
   \<and> str_lower small_fs (name [ascii ''pics'', ascii ''Screenshot_2026.png''])
       = [] @ ascii ''screenshot'' @ ascii ''_2026.png''
   \<and> is_screenshot small_fs sample_fs [ascii ''pics'', ascii ''Screenshot_2026.png'']
       = (True, [])"
proof -
  have h1: "str_lower small_fs (suffix [ascii ''pics'', ascii ''Screenshot_2026.png''])
            \<in> IMAGE_EXTENSIONS"
    by (simp add: sample_defs)
  have h2: "ascii ''screenshot'' \<in> set SCREENSHOT_KEYWORDS" by (simp add: sample_defs)
  have h3: "str_lower small_fs (name [ascii ''pics'', ascii ''Screenshot_2026.png''])
            = [] @ ascii ''screenshot'' @ ascii ''_2026.png''"
    by (simp add: sample_defs)
  from h1 h2 h3 keyword_fast_path [OF h1 h2 h3] show ?thesis by blast
qed

text \<open>
  C2: for an image that opens, with an image extension and no keyword in its name,
  whose EXIF dictionary has one of the tags 33434, 33437, 34855, the body returns
  false at the EXIF test and \<open>is_screenshot\<close> returns false, whatever the size of
  the image.
\<close>

theorem exif_exclusion:
  assumes "str_lower pf (suffix file_path) \<in> IMAGE_EXTENSIONS"
    and "\<not> keyword_match SCREENSHOT_KEYWORDS (str_lower pf (name file_path))"
    and "image_open pf w file_path = Inr img"
    and "image_getexif img = Inr (Some exif)"
    and "tag \<in> {33434, 33437, 34855}"
    and "tag \<in> fst ` set exif"
  shows "inspect_image img = Inr (Some False)
         \<and> is_screenshot pf w file_path = (False, [file_path])"
proof -
  have "tag \<in> set photo_tags" using assms(5) by (simp add: photo_tags_def)
  then have "has_photo_tag photo_tags exif"
    using assms(6) unfolding has_photo_tag_iff by blast
  moreover from this have "exif \<noteq> []" by (cases exif) (auto simp: has_photo_tag_iff)
  ultimately have body: "inspect_image img = Inr (Some False)"
    using assms(4) by (simp add: inspect_image_def)
  then show ?thesis
    using assms(1,2,3) by (simp add: is_screenshot_def content_check_def try_block_def)
qed

theorem exif_exclusion_witness:
  "str_lower small_fs (suffix [ascii ''pics'', ascii ''photo.jpg'']) \<in> IMAGE_EXTENSIONS
   \<and> \<not> keyword_match SCREENSHOT_KEYWORDS
         (str_lower small_fs (name [ascii ''pics'', ascii ''photo.jpg'']))
   \<and> image_open small_fs sample_fs [ascii ''pics'', ascii ''photo.jpg''] = Inr camera_photo
   \<and> image_getexif camera_photo = Inr (Some [(33437, ExifRational 18 10)])
   \<and> (33437::nat) \<in> {33434, 33437, 34855}
   \<and> (33437::nat) \<in> fst ` set [(33437, ExifRational 18 10)]
   \<and> inspect_image camera_photo = Inr (Some False)
   \<and> is_screenshot small_fs sample_fs [ascii ''pics'', ascii ''photo.jpg'']
       = (False, [[ascii ''pics'', ascii ''photo.jpg'']])"
proof -
  have h1: "str_lower small_fs (suffix [ascii ''pics'', ascii ''photo.jpg'']) \<in> IMAGE_EXTENSIONS"
    by (simp add: sample_defs)
  have h2: "\<not> keyword_match SCREENSHOT_KEYWORDS
              (str_lower small_fs (name [ascii ''pics'', ascii ''photo.jpg'']))"
    by (simp add: sample_defs)
  have h3: "image_open small_fs sample_fs [ascii ''pics'', ascii ''photo.jpg''] = Inr camera_photo"
    by (simp add: small_fs_def sample_fs_def fs_open_def ascii_def)
  have h4: "image_getexif camera_photo = Inr (Some [(33437, ExifRational 18 10)])"
    by (simp add: camera_photo_def)
  have h5: "(33437::nat) \<in> {33434, 33437, 34855}" by simp
  have h6: "(33437::nat) \<in> fst ` set [(33437, ExifRational 18 10)]" by simp
  from h1 h2 h3 h4 h5 h6 exif_exclusion [OF h1 h2 h3 h4 h5 h6] show ?thesis by blast
qed

text \<open>
  C3, as stated: an image that opens, with an image extension, no keyword in its
  name, no photo tag in its EXIF and sides that are not zero is a screenshot exactly
  when its ratio lies in one of the ranges. The EXIF read is inside the \<^verbatim>\<open>try\<close>, and
  the second handler turns what it raises into false: \<^verbatim>\<open>pics/anim.png\<close> opens, has no
  EXIF dictionary at all, measures 472 by 1024, a ratio inside the range from 1.95
  to 2.40, and is not a screenshot.
\<close>

theorem exif_read_failure_hides_ratio:
  "str_lower small_fs (suffix [ascii ''pics'', ascii ''anim.png'']) \<in> IMAGE_EXTENSIONS
   \<and> \<not> keyword_match SCREENSHOT_KEYWORDS
         (str_lower small_fs (name [ascii ''pics'', ascii ''anim.png'']))
   \<and> image_open small_fs sample_fs [ascii ''pics'', ascii ''anim.png''] = Inr gif_image
   \<and> image_getexif gif_image = Inl (OtherException ''AttributeError'')
   \<and> image_size gif_image = (472, 1024)
   \<and> 195 / 100 \<le> (of_nat (max 472 1024) :: rat) / of_nat (min 472 1024)
   \<and> (of_nat (max 472 1024) :: rat) / of_nat (min 472 1024) \<le> 240 / 100
   \<and> fst (is_screenshot small_fs sample_fs [ascii ''pics'', ascii ''anim.png'']) = False"
  by (simp add: sample_defs is_screenshot_def content_check_def try_block_def inspect_image_def)

text \<open>
  C3, amended: for an image that opens, with an image extension, no keyword in its name, an
  EXIF read that returns \<^verbatim>\<open>None\<close> or a dictionary without the three photo tags, and a
  width and a height that are not zero, \<open>is_screenshot\<close> returns true exactly when
  the ratio of the long side to the short side lies in one of the ranges from 1.30
  to 1.36, from 1.75 to 1.80, from 1.95 to 2.40, bounds included. The program
  computes the ratio and the bounds as floats; the exact ratio decides as long as
  the short side is below \<open>2 ^ 44\<close> pixels, which holds for every image that PIL
  opens, since it refuses images of more than 178956970 pixels.
\<close>

theorem ratio_verdict:
  assumes "str_lower pf (suffix file_path) \<in> IMAGE_EXTENSIONS"
    and "\<not> keyword_match SCREENSHOT_KEYWORDS (str_lower pf (name file_path))"
    and "image_open pf w file_path = Inr img"
    and "image_getexif img = Inr exif"
    and "\<forall>d. exif = Some d \<longrightarrow> (\<forall>tag \<in> {33434, 33437, 34855}. tag \<notin> fst ` set d)"
    and "image_size img = (wd, ht)" and "0 < wd" and "0 < ht"
    and "min wd ht < 2 ^ 44"
  shows "fst (is_screenshot pf w file_path) \<longleftrightarrow>
         (let ratio = (of_nat (max wd ht) :: rat) / of_nat (min wd ht) in
          130 / 100 \<le> ratio \<and> ratio \<le> 136 / 100
          \<or> 175 / 100 \<le> ratio \<and> ratio \<le> 180 / 100
          \<or> 195 / 100 \<le> ratio \<and> ratio \<le> 240 / 100)"
proof -
  have tags: "\<forall>d. exif = Some d \<longrightarrow> \<not> has_photo_tag photo_tags d"
    using assms(5) by (auto simp: has_photo_tag_iff photo_tags_def)
  note r = inspect_ratio [OF assms(4) tags assms(6,7,8,9)]
  have "fst (is_screenshot pf w file_path) \<longleftrightarrow> inspect_image img = Inr (Some True)"
    using assms(1,2,3) r
    by (auto simp: is_screenshot_def content_check_def try_block_def)
  then show ?thesis using r by (simp add: in_ranges_def Let_def)
qed

theorem ratio_verdict_witness:
  "str_lower small_fs (suffix [ascii ''pics'', ascii ''img_random_001.png'']) \<in> IMAGE_EXTENSIONS
   \<and> \<not> keyword_match SCREENSHOT_KEYWORDS
         (str_lower small_fs (name [ascii ''pics'', ascii ''img_random_001.png'']))
   \<and> image_open small_fs sample_fs [ascii ''pics'', ascii ''img_random_001.png''] = Inr tall_image
   \<and> image_getexif tall_image = Inr None
   \<and> image_size tall_image = (472, 1024)
   \<and> min 472 1024 < (2::nat) ^ 44
   \<and> fst (is_screenshot small_fs sample_fs [ascii ''pics'', ascii ''img_random_001.png''])
   \<and> image_open small_fs sample_fs [ascii ''pics'', ascii ''img_random_002.png''] = Inr square_image
   \<and> image_size square_image = (1024, 1024)
   \<and> \<not> fst (is_screenshot small_fs sample_fs [ascii ''pics'', ascii ''img_random_002.png''])"
proof -
  have h1: "str_lower small_fs (suffix [ascii ''pics'', ascii ''img_random_001.png''])
            \<in> IMAGE_EXTENSIONS"
    by (simp add: sample_defs)
  have h2: "\<not> keyword_match SCREENSHOT_KEYWORDS
         (str_lower small_fs (name [ascii ''pics'', ascii ''img_random_001.png'']))"
    by (simp add: sample_defs)
  have h3: "image_open small_fs sample_fs [ascii ''pics'', ascii ''img_random_001.png'']
            = Inr tall_image"
    by (simp add: small_fs_def sample_fs_def fs_open_def ascii_def)
  have h4: "image_getexif tall_image = Inr None" by (simp add: tall_image_def)
  have h5: "\<forall>d. None = Some d
              \<longrightarrow> (\<forall>tag \<in> {33434, 33437, 34855}. tag \<notin> fst ` set (d :: exif_dict))"
    by simp
  have h6: "image_size tall_image = (472, 1024)" by (simp add: tall_image_def)
  have h7: "0 < (472::nat)" "0 < (1024::nat)" by simp_all
  have h8: "min 472 1024 < (2::nat) ^ 44" by simp
  have yes: "fst (is_screenshot small_fs sample_fs [ascii ''pics'', ascii ''img_random_001.png''])"
    using ratio_verdict [OF h1 h2 h3 h4 h5 h6 h7 h8] by (simp add: Let_def)
  have k1: "str_lower small_fs (suffix [ascii ''pics'', ascii ''img_random_002.png''])
            \<in> IMAGE_EXTENSIONS"
    by (simp add: sample_defs)
  have k2: "\<not> keyword_match SCREENSHOT_KEYWORDS
         (str_lower small_fs (name [ascii ''pics'', ascii ''img_random_002.png'']))"
    by (simp add: sample_defs)
  have k3: "image_open small_fs sample_fs [ascii ''pics'', ascii ''img_random_002.png'']
            = Inr square_image"
    by (simp add: small_fs_def sample_fs_def fs_open_def ascii_def)
  have k4: "image_getexif square_image = Inr None" by (simp add: square_image_def)
  have k6: "image_size square_image = (1024, 1024)" by (simp add: square_image_def)
  have k8: "min 1024 1024 < (2::nat) ^ 44" by simp
  have no: "\<not> fst (is_screenshot small_fs sample_fs [ascii ''pics'', ascii ''img_random_002.png''])"
    using ratio_verdict [OF k1 k2 k3 k4 h5 k6 h7(2) h7(2) k8] by (simp add: Let_def)
  from h1 h2 h3 h4 h6 h8 yes k3 k6 no show ?thesis by blast
qed

text \<open>
  C4: for every path whose lower-cased extension is none of \<^verbatim>\<open>.png\<close>, \<^verbatim>\<open>.jpg\<close>,
  \<^verbatim>\<open>.jpeg\<close>, \<^verbatim>\<open>.heic\<close>, \<^verbatim>\<open>.webp\<close>, \<open>is_screenshot\<close> returns false and has not called
  \<^verbatim>\<open>Image.open\<close>.
\<close>

theorem extension_gate:
  assumes "str_lower pf (suffix file_path) \<notin>
             {ascii ''.png'', ascii ''.jpg'', ascii ''.jpeg'', ascii ''.heic'', ascii ''.webp''}"
  shows "is_screenshot pf w file_path = (False, [])"
  using assms by (simp add: is_screenshot_def IMAGE_EXTENSIONS_def)

theorem extension_gate_witness:
  "str_lower small_fs (suffix [ascii ''pics'', ascii ''notes.txt''])
     \<notin> {ascii ''.png'', ascii ''.jpg'', ascii ''.jpeg'', ascii ''.heic'', ascii ''.webp''}
   \<and> is_screenshot small_fs sample_fs [ascii ''pics'', ascii ''notes.txt''] = (False, [])"
proof -
  have h: "str_lower small_fs (suffix [ascii ''pics'', ascii ''notes.txt''])
     \<notin> {ascii ''.png'', ascii ''.jpg'', ascii ''.jpeg'', ascii ''.heic'', ascii ''.webp''}"
    by (simp add: sample_defs)
  from h extension_gate [OF h] show ?thesis by blast
qed

text \<open>
  C5: \<open>is_screenshot\<close> is a total function to a truth value, and whatever exception
  the guarded block raises, from \<^verbatim>\<open>Image.open\<close>, from the EXIF read or from the
  division, the verdict for a name without keyword is false: no exception leaves
  the classifier.
\<close>

theorem failures_resolve_to_false:
  assumes "\<not> keyword_match SCREENSHOT_KEYWORDS (str_lower pf (name file_path))"
    and "try_block pf w file_path = Inl e"
  shows "fst (is_screenshot pf w file_path) = False"
  using assms by (simp add: is_screenshot_def content_check_def)

theorem failures_resolve_to_false_witness:
  "\<not> keyword_match SCREENSHOT_KEYWORDS
       (str_lower small_fs (name [ascii ''pics'', ascii ''notes.png'']))
   \<and> try_block small_fs sample_fs [ascii ''pics'', ascii ''notes.png'']
       = Inl UnidentifiedImageError
   \<and> fst (is_screenshot small_fs sample_fs [ascii ''pics'', ascii ''notes.png'']) = False"
proof -
  have h1: "\<not> keyword_match SCREENSHOT_KEYWORDS
              (str_lower small_fs (name [ascii ''pics'', ascii ''notes.png'']))"
    by (simp add: sample_defs)
  have h2: "try_block small_fs sample_fs [ascii ''pics'', ascii ''notes.png'']
            = Inl UnidentifiedImageError"
    by (simp add: try_block_def small_fs_def sample_fs_def fs_open_def ascii_def)
  from h1 h2 failures_resolve_to_false [OF h1 h2] show ?thesis by blast
qed

text \<open>
  C6: for an opened image whose width or height is zero, the content check gives
  false, and the body either returns false or raises what the EXIF read raised: the
  division is not reached, so no exception comes from a zero divisor.
\<close>

theorem zero_size_guard:
  assumes "image_open pf w file_path = Inr img"
    and "image_size img = (wd, ht)"
    and "wd = 0 \<or> ht = 0"
  shows "content_check pf w file_path = False
         \<and> (inspect_image img = Inr (Some False)
              \<or> (\<exists>e. image_getexif img = Inl e \<and> inspect_image img = Inl e))"
proof -
  note z = inspect_zero [OF assms(2,3)]
  then have "content_check pf w file_path = False"
    using assms(1) by (auto simp: content_check_def try_block_def)
  then show ?thesis using z by blast
qed

theorem zero_size_guard_witness:
  "image_open small_fs sample_fs [ascii ''pics'', ascii ''blank.webp''] = Inr blank_image
   \<and> image_size blank_image = (0, 600)
   \<and> content_check small_fs sample_fs [ascii ''pics'', ascii ''blank.webp''] = False
   \<and> inspect_image blank_image = Inr (Some False)"
proof -
  have h1: "image_open small_fs sample_fs [ascii ''pics'', ascii ''blank.webp''] = Inr blank_image"
    by (simp add: small_fs_def sample_fs_def fs_open_def ascii_def)
  have h2: "image_size blank_image = (0, 600)" by (simp add: blank_image_def)
  have h3: "(0::nat) = 0 \<or> (600::nat) = 0" by simp
  have "\<not> (\<exists>e. image_getexif blank_image = Inl e \<and> inspect_image blank_image = Inl e)"
    by (simp add: blank_image_def)
  with h1 h2 zero_size_guard [OF h1 h2 h3] show ?thesis by blast
qed

section \<open>The loops of the command\<close>











section \<open>Claims about the command\<close>












end
